theory Spec2Isabelle
  imports Main
begin

section \<open>The port prober of \<^verbatim>\<open>ui-next/scripts/find-free-port.py\<close>\<close>

text \<open>
  The script under verification, with its line numbers:
  \<^verbatim>\<open>
   1  import random
   2  import socket
   3  from contextlib import closing
   4
   5  LOW, HIGH = 20000, 60000
   6  for _ in range(100):
   7      port = random.randint(LOW, HIGH)
   8      with closing(socket.socket(socket.AF_INET, socket.SOCK_STREAM)) as s:
   9          s.setsockopt(socket.SOL_SOCKET, socket.SO_REUSEADDR, 1)
  10          try:
  11              s.bind(('127.0.0.1', port))
  12          except OSError:
  13              continue
  14          print(port)
  15          raise SystemExit(0)
  16  print(0)
  \<close>
  The script reads no input. What it does depends on the random generator and on what the
  operating system answers to each socket call; both are the environment of the model. A
  run is a pure function of the environment and yields the list of the calls made, in
  order, together with the exception (if any) that ends the process. The calls of
  \<open>random.randint\<close> and of \<open>print\<close> are taken to return; every call on a socket may
  raise.
\<close>

subsection \<open>Exceptions and control flow\<close>

text \<open>
  A call into the socket library either returns or raises. Line 12 tells \<open>OSError\<close> (the
  class of every failed system call: address in use, permission denied, ...) from every
  exception outside that class, for which \<open>MemoryError\<close> stands here.
\<close>

datatype failure = OSError | MemoryError

text \<open>The exceptions that travel through the script: a failed call, or line 15's own.\<close>

datatype exn = Failure failure | SystemExit int

text \<open>
  The body of the loop never runs off its end: it is left by \<open>continue\<close> (line 13) or by
  an exception.
\<close>

datatype signal = Continue | Raise exn

subsection \<open>The environment\<close>

text \<open>
  One iteration of the loop asks the environment for: the randomness that \<open>randint\<close>
  consumes, and the result of \<open>socket.socket\<close>, of \<open>setsockopt\<close>, of \<open>bind\<close> and of the
  \<open>close\<close> that \<open>closing\<close> performs (\<open>None\<close>: the call returned; \<open>Some e\<close>: it raised
  \<open>e\<close>). A result is only read if the run reaches that call.
\<close>

record attempt =
  entropy :: nat
  socket_result :: "failure option"
  setsockopt_result :: "failure option"
  bind_result :: "failure option"
  close_result :: "failure option"

type_synonym env = "nat \<Rightarrow> attempt"

subsection \<open>The calls a run makes\<close>

datatype event =
    Randint int                   \<comment> \<open>\<open>random.randint(LOW, HIGH)\<close> returned this port\<close>
  | Socket "failure option"       \<comment> \<open>\<open>socket.socket(AF_INET, SOCK_STREAM)\<close>\<close>
  | Setsockopt "failure option"   \<comment> \<open>\<open>s.setsockopt(SOL_SOCKET, SO_REUSEADDR, 1)\<close>\<close>
  | Bind int "failure option"     \<comment> \<open>\<open>s.bind(('127.0.0.1', port))\<close>\<close>
  | Close "failure option"        \<comment> \<open>\<open>s.close()\<close>, called by \<open>closing.__exit__\<close>\<close>
  | Print int                     \<comment> \<open>\<open>print(v)\<close>\<close>

subsection \<open>Library functions\<close>

text \<open>
  \<open>random.randint(a, b)\<close> is \<open>randrange(a, b + 1)\<close>, that is \<open>a + _randbelow(b - a + 1)\<close>,
  and \<open>_randbelow(n)\<close> returns some integer of \<open>[0, n)\<close>; the model takes it from the
  environment's randomness. For \<open>b < a\<close> Python raises \<open>ValueError\<close>; the script calls
  \<open>randint\<close> with \<open>LOW\<close> and \<open>HIGH\<close> only (see \<open>LOW_le_HIGH\<close>).
\<close>

definition randint :: "int \<Rightarrow> int \<Rightarrow> nat \<Rightarrow> int" where
  "randint a b r = a + int r mod (b - a + 1)"

text \<open>\<open>str\<close> on an integer: its decimal digits, after a minus sign if it is negative.\<close>

fun str_nat :: "nat \<Rightarrow> string" where
  "str_nat n =
     (if n < 10 then [''0123456789'' ! n]
      else str_nat (n div 10) @ [''0123456789'' ! (n mod 10)])"

declare str_nat.simps [simp del]

definition str :: "int \<Rightarrow> string" where
  "str i = (if i < 0 then CHR ''-'' # str_nat (nat (- i)) else str_nat (nat i))"

subsection \<open>The script\<close>

definition LOW :: int where
  "LOW = 20000"

definition HIGH :: int where
  "HIGH = 60000"

text \<open>
  Lines 9 to 15, the body of the \<open>with\<close> statement, for the socket \<open>s\<close> and the port drawn.
  Only an \<open>OSError\<close> of \<open>bind\<close> is caught (lines 10 to 13); after a successful \<open>bind\<close> the
  port is printed (line 14) and \<open>SystemExit(0)\<close> is raised (line 15), both still inside the
  \<open>with\<close> statement.
\<close>

definition with_body :: "attempt \<Rightarrow> int \<Rightarrow> event list \<times> signal" where
  "with_body a port =
     (case setsockopt_result a of
        Some e \<Rightarrow> ([Setsockopt (Some e)], Raise (Failure e))
      | None \<Rightarrow>
          (case bind_result a of
             Some e \<Rightarrow>
               if e = OSError then ([Setsockopt None, Bind port (Some e)], Continue)
               else ([Setsockopt None, Bind port (Some e)], Raise (Failure e))
           | None \<Rightarrow> ([Setsockopt None, Bind port None, Print port], Raise (SystemExit 0))))"

text \<open>
  Lines 7 to 15, one iteration. The socket is created before the \<open>with\<close> statement is
  entered, so an exception of \<open>socket.socket\<close> leaves nothing to close. However the body is
  left, \<open>closing.__exit__\<close> calls \<open>s.close()\<close> and returns nothing, so the body's
  \<open>continue\<close> or exception goes on afterwards; an exception raised by \<open>close\<close> itself
  takes its place.
\<close>

definition iteration :: "attempt \<Rightarrow> event list \<times> signal" where
  "iteration a =
     (let port = randint LOW HIGH (entropy a) in
      case socket_result a of
        Some e \<Rightarrow> ([Randint port, Socket (Some e)], Raise (Failure e))
      | None \<Rightarrow>
          (case with_body a port of
             (evs, sig) \<Rightarrow>
               (case close_result a of
                  None \<Rightarrow> ([Randint port, Socket None] @ evs @ [Close None], sig)
                | Some e \<Rightarrow>
                    ([Randint port, Socket None] @ evs @ [Close (Some e)], Raise (Failure e)))))"

text \<open>
  Line 6, the \<open>for\<close> loop over the indices still to come: iteration \<open>i\<close> reads the
  environment's answers for attempt \<open>i\<close>. The loop ends normally (\<open>None\<close>) when the
  indices are used up, and with the exception when an iteration raises.
\<close>

fun for_loop :: "env \<Rightarrow> nat list \<Rightarrow> event list \<times> exn option" where
  "for_loop env [] = ([], None)"
| "for_loop env (i # is) =
     (case iteration (env i) of
        (evs, Continue) \<Rightarrow> (case for_loop env is of (evs', r) \<Rightarrow> (evs @ evs', r))
      | (evs, Raise e) \<Rightarrow> (evs, Some e))"

text \<open>
  The whole script: the loop over \<open>range(100)\<close>, then line 16 if the loop ended normally.
  An exception that leaves the loop is caught nowhere and ends the process.
\<close>

definition main :: "env \<Rightarrow> event list \<times> exn option" where
  "main env =
     (case for_loop env [0..<100] of
        (evs, None) \<Rightarrow> (evs @ [Print 0], None)
      | (evs, Some e) \<Rightarrow> (evs, Some e))"

subsection \<open>What is observed of a run\<close>

definition trace :: "env \<Rightarrow> event list" where
  "trace env = fst (main env)"

text \<open>
  The exit status of the interpreter: 0 when the script runs to its end, the code of an
  uncaught \<open>SystemExit\<close>, and 1 (after a traceback on stderr) for any other uncaught
  exception.
\<close>

definition exit_status :: "env \<Rightarrow> int" where
  "exit_status env =
     (case snd (main env) of
        None \<Rightarrow> 0
      | Some (SystemExit n) \<Rightarrow> n
      | Some (Failure e) \<Rightarrow> 1)"

text \<open>\<open>print(v)\<close> writes \<open>str(v)\<close> and a newline to standard output; no other call writes there.\<close>

fun written :: "event \<Rightarrow> string" where
  "written (Print v) = str v @ [CHR 0x0A]"
| "written _ = []"

definition stdout :: "env \<Rightarrow> string" where
  "stdout env = concat (map written (trace env))"

fun is_Randint :: "event \<Rightarrow> bool" where
  "is_Randint (Randint p) = True"
| "is_Randint _ = False"

fun is_Bind :: "event \<Rightarrow> bool" where
  "is_Bind (Bind p r) = True"
| "is_Bind _ = False"

fun is_Print :: "event \<Rightarrow> bool" where
  "is_Print (Print v) = True"
| "is_Print _ = False"

fun is_Close :: "event \<Rightarrow> bool" where
  "is_Close (Close r) = True"
| "is_Close _ = False"

subsection \<open>The sockets a run holds\<close>

text \<open>
  The probe sockets of the process that are open after a call, the newest first, each
  with the port it is bound to, if any. \<open>socket.socket\<close> opens one when it returns;
  a \<open>bind\<close> that returns binds the newest one, which is \<open>s\<close>; \<open>s.close()\<close> gives
  up the descriptor of \<open>s\<close> whether or not the underlying system call reports an error.
\<close>

fun step :: "int option list \<Rightarrow> event \<Rightarrow> int option list" where
  "step st (Socket None) = None # st"
| "step st (Bind p None) = (case st of [] \<Rightarrow> [] | s # rest \<Rightarrow> Some p # rest)"
| "step st (Close r) = (case st of [] \<Rightarrow> [] | s # rest \<Rightarrow> rest)"
| "step st ev = st"

definition sockets :: "event list \<Rightarrow> int option list" where
  "sockets evs = foldl step [] evs"

text \<open>
  The discipline of the probe sockets along a list of calls, from the sockets held at its
  start: before every call at most one socket is open, none is open when a port is drawn,
  and none is left at the end.
\<close>

fun scoped :: "int option list \<Rightarrow> event list \<Rightarrow> bool" where
  "scoped st [] \<longleftrightarrow> st = []"
| "scoped st (ev # evs) \<longleftrightarrow>
     length st \<le> 1 \<and> (is_Randint ev \<longrightarrow> st = []) \<and> scoped (step st ev) evs"

subsection \<open>Kinds of attempts, and some environments\<close>

text \<open>
  An attempt goes as the algorithm expects when the socket is created, configured and
  closed without an exception, and \<open>bind\<close> either returns or raises \<open>OSError\<close>.
\<close>

definition nominal :: "attempt \<Rightarrow> bool" where
  "nominal a \<longleftrightarrow>
     socket_result a = None \<and> setsockopt_result a = None \<and>
     (bind_result a = None \<or> bind_result a = Some OSError) \<and> close_result a = None"

text \<open>The port that attempt \<open>i\<close> draws.\<close>

definition port_of :: "env \<Rightarrow> nat \<Rightarrow> int" where
  "port_of env i = randint LOW HIGH (entropy (env i))"

text \<open>
  The calls of an attempt whose \<open>bind\<close> raises \<open>OSError\<close> and whose other calls
  return.
\<close>

definition miss :: "env \<Rightarrow> nat \<Rightarrow> event list" where
  "miss env i =
     [Randint (port_of env i), Socket None, Setsockopt None,
      Bind (port_of env i) (Some OSError), Close None]"

text \<open>Every port is free, and the generator returns the least port each time.\<close>

definition all_free :: env where
  "all_free i =
     \<lparr>entropy = 0, socket_result = None, setsockopt_result = None,
      bind_result = None, close_result = None\<rparr>"

text \<open>Every port is taken.\<close>

definition all_taken :: env where
  "all_taken i =
     \<lparr>entropy = i, socket_result = None, setsockopt_result = None,
      bind_result = Some OSError, close_result = None\<rparr>"

text \<open>The first two ports drawn are taken, the third one, 20007, is free.\<close>

definition third_free :: env where
  "third_free i =
     \<lparr>entropy = 40006 + i, socket_result = None, setsockopt_result = None,
      bind_result = (if i < 2 then Some OSError else None), close_result = None\<rparr>"

text \<open>After one taken port, no socket can be created any more.\<close>

definition no_socket :: env where
  "no_socket i =
     \<lparr>entropy = 5, socket_result = (if i < 1 then None else Some OSError),
      setsockopt_result = None, bind_result = Some OSError, close_result = None\<rparr>"

text \<open>After one taken port, no socket can be configured any more.\<close>

definition no_option :: env where
  "no_option i =
     \<lparr>entropy = 5, socket_result = None,
      setsockopt_result = (if i < 1 then None else Some MemoryError),
      bind_result = Some OSError, close_result = None\<rparr>"

text \<open>The same, with an exception of another class.\<close>

definition no_option_os :: env where
  "no_option_os i =
     \<lparr>entropy = 5, socket_result = None,
      setsockopt_result = (if i < 1 then None else Some OSError),
      bind_result = Some OSError, close_result = None\<rparr>"

text \<open>Every port is free, but \<open>close\<close> raises.\<close>

definition close_fails :: env where
  "close_fails i =
     \<lparr>entropy = 0, socket_result = None, setsockopt_result = None,
      bind_result = None, close_result = Some OSError\<rparr>"

text \<open>Every port is taken, and \<open>close\<close> raises.\<close>

definition taken_close_fails :: env where
  "taken_close_fails i =
     \<lparr>entropy = 5, socket_result = None, setsockopt_result = None,
      bind_result = Some OSError, close_result = Some OSError\<rparr>"

text \<open>Every port is taken, and the \<open>close\<close> of the hundredth socket raises.\<close>

definition last_close_fails :: env where
  "last_close_fails i =
     \<lparr>entropy = 5, socket_result = None, setsockopt_result = None,
      bind_result = Some OSError,
      close_result = (if i < 99 then None else Some OSError)\<rparr>"

subsection \<open>What the calls of \<open>bind\<close> and \<open>close\<close> tell\<close>

text \<open>
  The standard output and the exit status that go with the calls of \<open>bind\<close> and of
  \<open>close\<close> seen in a run, each in order. A last \<open>bind\<close> that returned announces its
  port, with status 0 if the last \<open>close\<close> returned. A hundred calls of \<open>bind\<close>, the
  last one raising \<open>OSError\<close>, followed by a \<open>close\<close> that returned, announce \<open>0\<close> and
  status 0. Anything else is a run ended by an uncaught exception before it printed.
\<close>

definition verdict :: "event list \<Rightarrow> event list \<Rightarrow> string \<times> int" where
  "verdict binds closes =
     (if binds = [] then ([], 1)
      else
        (case last binds of
           Bind p None \<Rightarrow> (str p @ [CHR 0x0A], if last closes = Close None then 0 else 1)
         | Bind p (Some e) \<Rightarrow>
             if e = OSError \<and> length binds = 100 \<and> closes \<noteq> [] \<and> last closes = Close None
             then (str 0 @ [CHR 0x0A], 0) else ([], 1)
         | _ \<Rightarrow> ([], 1)))"

section \<open>Properties\<close>

subsection \<open>The library functions\<close>

lemma LOW_le_HIGH: "LOW \<le> HIGH"
  by (simp add: LOW_def HIGH_def)

lemma randint_range: "20000 \<le> randint LOW HIGH r \<and> randint LOW HIGH r \<le> 60000"
  by (simp add: randint_def LOW_def HIGH_def)

lemma str_0: "str 0 = ''0''"
  by (simp add: str_def str_nat.simps)

lemma str_20007: "str 20007 = ''20007''"
  by (simp add: str_def str_nat.simps)


subsection \<open>Attempts whose \<open>bind\<close> raises \<open>OSError\<close>\<close>

lemma iteration_nominal_miss:
  "nominal (env i) \<Longrightarrow> bind_result (env i) \<noteq> None \<Longrightarrow> iteration (env i) = (miss env i, Continue)"
  by (auto simp: nominal_def iteration_def with_body_def miss_def port_of_def Let_def)

lemma for_loop_misses:
  "\<forall>i \<in> set is. nominal (env i) \<and> bind_result (env i) \<noteq> None \<Longrightarrow>
   for_loop env is = (concat (map (miss env) is), None)"
  by (induction "is") (simp_all add: iteration_nominal_miss)

lemma written_miss: "concat (map written (miss env i)) = []"
  by (simp add: miss_def)

lemma written_misses: "concat (map written (concat (map (miss env) is))) = []"
  by (induction "is") (simp_all add: written_miss)

lemma prints_misses: "filter is_Print (concat (map (miss env) is)) = []"
  by (induction "is") (simp_all add: miss_def)

lemma randints_misses: "length (filter is_Randint (concat (map (miss env) is))) = length is"
  by (induction "is") (simp_all add: miss_def)

lemma binds_misses: "length (filter is_Bind (concat (map (miss env) is))) = length is"
  by (induction "is") (simp_all add: miss_def)


lemma binds_of_misses:
  "filter is_Bind (concat (map (miss env) is)) =
   map (\<lambda>j. Bind (port_of env j) (Some OSError)) is"
  by (induction "is") (simp_all add: miss_def)

lemma closes_of_misses:
  "filter is_Close (concat (map (miss env) is)) = map (\<lambda>j. Close None) is"
  by (induction "is") (simp_all add: miss_def)

lemma no_hit_in_misses: "Bind v None \<notin> set (concat (map (miss env) is))"
  by (induction "is") (simp_all add: miss_def)

lemma no_raise_in_misses: "Close (Some e) \<notin> set (concat (map (miss env) is))"
  by (induction "is") (simp_all add: miss_def)


subsection \<open>Runs that end inside an iteration\<close>

text \<open>
  When the iterations before \<open>k\<close> all end with \<open>continue\<close> and iteration \<open>k\<close> raises,
  the run is those iterations' calls, then the calls of iteration \<open>k\<close>, and ends with its
  exception.
\<close>

lemma for_loop_raise_at:
  "\<forall>j \<in> set js. snd (iteration (env j)) = Continue \<Longrightarrow> iteration (env k) = (evs, Raise e) \<Longrightarrow>
   for_loop env (js @ k # ks) = (concat (map (\<lambda>j. fst (iteration (env j))) js) @ evs, Some e)"
  by (induction js) (auto split: prod.splits signal.splits)

lemma upt_100_at: "k < 100 \<Longrightarrow> [0..<100] = [0..<k] @ k # [Suc k..<100]"
  by (metis less_imp_le_nat upt_add_eq_append upt_conv_Cons le0 le_add_diff_inverse plus_nat.add_0)

lemma main_raise_at:
  assumes "k < 100" and "\<forall>j<k. snd (iteration (env j)) = Continue"
    and "iteration (env k) = (evs, Raise e)"
  shows "main env = (concat (map (\<lambda>j. fst (iteration (env j))) [0..<k]) @ evs, Some e)"
proof -
  from assms(2) have "\<forall>j \<in> set [0..<k]. snd (iteration (env j)) = Continue" by simp
  from for_loop_raise_at [OF this assms(3), of "[Suc k..<100]"] upt_100_at [OF assms(1)]
  show ?thesis by (simp add: main_def)
qed

lemma iteration_Continue:
  "snd (iteration a) = Continue \<longleftrightarrow>
     socket_result a = None \<and> setsockopt_result a = None \<and>
     bind_result a = Some OSError \<and> close_result a = None"
  by (auto simp: iteration_def with_body_def Let_def split: option.splits if_splits)


lemma iteration_Continue_miss:
  "snd (iteration (env i)) = Continue \<Longrightarrow> iteration (env i) = (miss env i, Continue)"
  by (simp add: iteration_Continue iteration_nominal_miss nominal_def)


text \<open>Every run is a hundred misses and line 16, or some misses and an iteration that raises.\<close>

lemma main_cases:
  "main env = (concat (map (miss env) [0..<100]) @ [Print 0], None) \<or>
   (\<exists>k<100. \<exists>evs x. iteration (env k) = (evs, Raise x) \<and>
      main env = (concat (map (miss env) [0..<k]) @ evs, Some x))"
proof (cases "\<forall>i<100. snd (iteration (env i)) = Continue")
  case True
  then have "\<forall>i \<in> set [0..<100]. nominal (env i) \<and> bind_result (env i) \<noteq> None"
    by (simp add: iteration_Continue nominal_def)
  from for_loop_misses [OF this] show ?thesis by (simp add: main_def)
next
  case False
  then have "\<exists>k. k < 100 \<and> snd (iteration (env k)) \<noteq> Continue" by blast
  then obtain k where k: "k < 100" "snd (iteration (env k)) \<noteq> Continue"
    and least: "\<forall>j<k. \<not> (j < 100 \<and> snd (iteration (env j)) \<noteq> Continue)"
    using exists_least_iff [of "\<lambda>k. k < 100 \<and> snd (iteration (env k)) \<noteq> Continue"] by blast
  from k(1) least have c: "\<forall>j<k. snd (iteration (env j)) = Continue" by auto
  from k(2) obtain evs x where it: "iteration (env k) = (evs, Raise x)"
    by (cases "iteration (env k)"; cases "snd (iteration (env k))") auto
  from c have "map (\<lambda>j. fst (iteration (env j))) [0..<k] = map (miss env) [0..<k]"
    by (simp add: iteration_Continue_miss)
  with main_raise_at [OF k(1) c it] it k(1) show ?thesis by auto
qed


text \<open>An iteration that raises: what its calls were, and which exception it ends with.\<close>

lemma raise_disj:
  assumes "iteration a = (evs, Raise x)"
  shows
    "(\<exists>v. evs = [Randint v, Socket None, Setsockopt None, Bind v None, Print v, Close None] \<and>
        x = SystemExit 0) \<or>
     (\<exists>v e. evs = [Randint v, Socket None, Setsockopt None, Bind v None, Print v,
        Close (Some e)] \<and> x = Failure e) \<or>
     (\<exists>e. x = Failure e \<and> concat (map written evs) = [] \<and> filter is_Bind evs = []) \<or>
     (\<exists>p e e'. x = Failure e' \<and> concat (map written evs) = [] \<and>
        filter is_Bind evs = [Bind p (Some e)] \<and> e \<noteq> OSError) \<or>
     (\<exists>p e e'. x = Failure e' \<and> concat (map written evs) = [] \<and>
        filter is_Bind evs = [Bind p (Some OSError)] \<and>
        filter is_Close evs = [Close (Some e)])"
  using assms
  by (auto simp: iteration_def with_body_def Let_def split: option.splits if_splits)

lemma raise_cases:
  assumes "iteration a = (evs, Raise x)"
  obtains
    (hit) v where
      "evs = [Randint v, Socket None, Setsockopt None, Bind v None, Print v, Close None]"
      "x = SystemExit 0"
  | (hit_raise) v e where
      "evs = [Randint v, Socket None, Setsockopt None, Bind v None, Print v, Close (Some e)]"
      "x = Failure e"
  | (none) e where "x = Failure e" "concat (map written evs) = []" "filter is_Bind evs = []"
  | (other) p e e' where "x = Failure e'" "concat (map written evs) = []"
      "filter is_Bind evs = [Bind p (Some e)]" "e \<noteq> OSError"
  | (closing) p e e' where "x = Failure e'" "concat (map written evs) = []"
      "filter is_Bind evs = [Bind p (Some OSError)]" "filter is_Close evs = [Close (Some e)]"
  using raise_disj [OF assms] by (elim disjE exE conjE) blast+


lemma iteration_bound:
  "Bind v None \<in> set (fst (iteration a)) \<Longrightarrow>
   (\<exists>e. snd (iteration a) = Raise e) \<and>
   fst (iteration a) =
     [Randint v, Socket None, Setsockopt None] @ [Bind v None, Print v, Close (close_result a)]"
  by (auto simp: iteration_def with_body_def Let_def split: option.splits if_splits)


lemma stdout_misses_then:
  "main env = (concat (map (miss env) is) @ evs, r) \<Longrightarrow>
   stdout env = concat (map written evs) \<and>
   filter is_Print (trace env) = filter is_Print evs \<and>
   filter is_Bind (trace env) =
     map (\<lambda>j. Bind (port_of env j) (Some OSError)) is @ filter is_Bind evs \<and>
   filter is_Close (trace env) = map (\<lambda>j. Close None) is @ filter is_Close evs"
  by (simp add: stdout_def trace_def written_misses prints_misses binds_of_misses closes_of_misses)


text \<open>
  A run finds a port when some \<open>bind\<close> returns; it then ends with that \<open>bind\<close>, the
  \<open>print\<close> and the \<open>close\<close>. A run exhausts its attempts when it calls \<open>bind\<close> a
  hundred times and every call raises \<open>OSError\<close>; if moreover no \<open>close\<close> raises, it
  reaches line 16.
\<close>

lemma found_run:
  assumes "Bind v None \<in> set (trace env)"
  shows "\<exists>k<100. \<exists>r. main env =
           (concat (map (miss env) [0..<k]) @
              [Randint v, Socket None, Setsockopt None, Bind v None, Print v, Close r],
            Some (case r of None \<Rightarrow> SystemExit 0 | Some e \<Rightarrow> Failure e))"
  using main_cases [of env]
proof
  assume "main env = (concat (map (miss env) [0..<100]) @ [Print 0], None)"
  with assms no_hit_in_misses [of v env "[0..<100]"] show ?thesis by (simp add: trace_def)
next
  assume "\<exists>k<100. \<exists>evs x. iteration (env k) = (evs, Raise x) \<and>
      main env = (concat (map (miss env) [0..<k]) @ evs, Some x)"
  then obtain k evs x where k: "k < 100" and it: "iteration (env k) = (evs, Raise x)"
    and m: "main env = (concat (map (miss env) [0..<k]) @ evs, Some x)"
    by blast
  from assms m no_hit_in_misses [of v env "[0..<k]"] have b: "Bind v None \<in> set evs"
    by (simp add: trace_def)
  with iteration_bound [of v "env k"] it
  have evs: "evs = [Randint v, Socket None, Setsockopt None, Bind v None, Print v,
     Close (close_result (env k))]"
    by simp
  with it have "x = (case close_result (env k) of None \<Rightarrow> SystemExit 0 | Some e \<Rightarrow> Failure e)"
    by (auto simp: iteration_def with_body_def Let_def split: option.splits if_splits)
  with m evs k show ?thesis by blast
qed

lemma exhausted_run:
  assumes "length (filter is_Bind (trace env)) = 100"
    and "\<forall>p r. Bind p r \<in> set (trace env) \<longrightarrow> r = Some OSError"
    and "\<forall>e. Close (Some e) \<notin> set (trace env)"
  shows "main env = (concat (map (miss env) [0..<100]) @ [Print 0], None)"
  using main_cases [of env]
proof
  assume "main env = (concat (map (miss env) [0..<100]) @ [Print 0], None)"
  then show ?thesis .
next
  assume "\<exists>k<100. \<exists>evs x. iteration (env k) = (evs, Raise x) \<and>
      main env = (concat (map (miss env) [0..<k]) @ evs, Some x)"
  then obtain k evs x where k: "k < 100" and it: "iteration (env k) = (evs, Raise x)"
    and m: "main env = (concat (map (miss env) [0..<k]) @ evs, Some x)"
    by blast
  from stdout_misses_then [OF m]
  have binds: "filter is_Bind (trace env) =
      map (\<lambda>j. Bind (port_of env j) (Some OSError)) [0..<k] @ filter is_Bind evs"
    and closes: "filter is_Close (trace env) = map (\<lambda>j. Close None) [0..<k] @ filter is_Close evs"
    by simp_all
  from m have sub: "set evs \<subseteq> set (trace env)" by (simp add: trace_def)
  have in_binds: "ev \<in> set (filter is_Bind evs) \<Longrightarrow> ev \<in> set (trace env)" for ev
    using sub by auto
  have in_closes: "ev \<in> set (filter is_Close evs) \<Longrightarrow> ev \<in> set (trace env)" for ev
    using sub by auto
  from it have False
  proof (cases rule: raise_cases)
    case (hit v)
    with sub have "Bind v None \<in> set (trace env)" by simp
    with assms(2) show False by blast
  next
    case (hit_raise v e)
    with sub have "Bind v None \<in> set (trace env)" by simp
    with assms(2) show False by blast
  next
    case (none e)
    with binds assms(1) k show False by simp
  next
    case (other p e e')
    with in_binds [of "Bind p (Some e)"] have "Bind p (Some e) \<in> set (trace env)" by simp
    with assms(2) other(4) show False by blast
  next
    case (closing p e e')
    with in_closes [of "Close (Some e)"] have "Close (Some e) \<in> set (trace env)" by simp
    with assms(3) show False by blast
  qed
  then show ?thesis ..
qed

lemma misses_run:
  assumes "main env = (concat (map (miss env) [0..<100]) @ [Print 0], None)"
  shows "length (filter is_Bind (trace env)) = 100 \<and>
         (\<forall>p r. Bind p r \<in> set (trace env) \<longrightarrow> r = Some OSError) \<and>
         (\<forall>e. Close (Some e) \<notin> set (trace env))"
proof -
  from stdout_misses_then [OF assms]
  have b: "filter is_Bind (trace env) =
      map (\<lambda>j. Bind (port_of env j) (Some OSError)) [0..<100]"
    by simp
  have "r = Some OSError" if "Bind p r \<in> set (trace env)" for p r
  proof -
    from that have "Bind p r \<in> set (filter is_Bind (trace env))" by simp
    with b show ?thesis by auto
  qed
  moreover from assms no_raise_in_misses [of _ env "[0..<100]"]
  have "Close (Some e) \<notin> set (trace env)" for e
    by (simp add: trace_def)
  moreover from b have "length (filter is_Bind (trace env)) = 100" by simp
  ultimately show ?thesis by blast
qed


subsection \<open>The runs of some environments\<close>

lemma main_third_free:
  "main third_free =
     ([Randint 20005, Socket None, Setsockopt None, Bind 20005 (Some OSError), Close None,
       Randint 20006, Socket None, Setsockopt None, Bind 20006 (Some OSError), Close None,
       Randint 20007, Socket None, Setsockopt None, Bind 20007 None, Print 20007, Close None],
      Some (SystemExit 0))"
proof -
  have it: "iteration (third_free 0) =
      ([Randint 20005, Socket None, Setsockopt None, Bind 20005 (Some OSError), Close None], Continue)"
    "iteration (third_free 1) =
      ([Randint 20006, Socket None, Setsockopt None, Bind 20006 (Some OSError), Close None], Continue)"
    "iteration (third_free 2) =
      ([Randint 20007, Socket None, Setsockopt None, Bind 20007 None, Print 20007, Close None],
       Raise (SystemExit 0))"
    by (simp_all add: iteration_def with_body_def third_free_def randint_def LOW_def HIGH_def)
  have "(2::nat) < 100" by simp
  moreover from it(1,2) have "\<forall>j<2. snd (iteration (third_free j)) = Continue"
    by (simp add: less_Suc_eq numeral_2_eq_2)
  ultimately show ?thesis
    using main_raise_at [of 2 third_free, OF _ _ it(3)] it(1,2)
    by (simp add: upt_rec numeral_2_eq_2)
qed

lemma main_all_free:
  "main all_free =
     ([Randint 20000, Socket None, Setsockopt None, Bind 20000 None, Print 20000, Close None],
      Some (SystemExit 0))"
proof -
  have it: "iteration (all_free 0) =
      ([Randint 20000, Socket None, Setsockopt None, Bind 20000 None, Print 20000, Close None],
       Raise (SystemExit 0))"
    by (simp add: iteration_def with_body_def all_free_def randint_def LOW_def HIGH_def)
  from main_raise_at [of 0 all_free, OF _ _ it] show ?thesis by simp
qed

lemma main_no_socket:
  "main no_socket =
     ([Randint 20005, Socket None, Setsockopt None, Bind 20005 (Some OSError), Close None,
       Randint 20005, Socket (Some OSError)],
      Some (Failure OSError))"
proof -
  have it: "iteration (no_socket 0) =
      ([Randint 20005, Socket None, Setsockopt None, Bind 20005 (Some OSError), Close None], Continue)"
    "iteration (no_socket 1) = ([Randint 20005, Socket (Some OSError)], Raise (Failure OSError))"
    by (simp_all add: iteration_def with_body_def no_socket_def randint_def LOW_def HIGH_def)
  have "(1::nat) < 100" by simp
  moreover from it(1) have "\<forall>j<1. snd (iteration (no_socket j)) = Continue" by simp
  ultimately show ?thesis
    using main_raise_at [of 1 no_socket, OF _ _ it(2)] it(1) by simp
qed


lemma main_all_taken:
  "main all_taken = (concat (map (miss all_taken) [0..<100]) @ [Print 0], None)"
proof -
  have "\<forall>i \<in> set [0..<100]. nominal (all_taken i) \<and> bind_result (all_taken i) \<noteq> None"
    by (simp add: nominal_def all_taken_def)
  from for_loop_misses [OF this] show ?thesis by (simp add: main_def)
qed

lemma main_close_fails:
  "main close_fails =
     ([Randint 20000, Socket None, Setsockopt None, Bind 20000 None, Print 20000,
       Close (Some OSError)],
      Some (Failure OSError))"
proof -
  have it: "iteration (close_fails 0) =
      ([Randint 20000, Socket None, Setsockopt None, Bind 20000 None, Print 20000,
        Close (Some OSError)],
       Raise (Failure OSError))"
    by (simp add: iteration_def with_body_def close_fails_def randint_def LOW_def HIGH_def)
  from main_raise_at [of 0 close_fails, OF _ _ it] show ?thesis by simp
qed

lemma main_last_close_fails:
  "main last_close_fails =
     (concat (map (miss last_close_fails) [0..<99]) @
        [Randint 20005, Socket None, Setsockopt None, Bind 20005 (Some OSError),
         Close (Some OSError)],
      Some (Failure OSError))"
proof -
  have it: "iteration (last_close_fails 99) =
      ([Randint 20005, Socket None, Setsockopt None, Bind 20005 (Some OSError),
        Close (Some OSError)],
       Raise (Failure OSError))"
    by (simp add: iteration_def with_body_def last_close_fails_def randint_def LOW_def HIGH_def)
  have c: "\<forall>j<99. snd (iteration (last_close_fails j)) = Continue"
    by (simp add: iteration_Continue last_close_fails_def)
  then have "map (\<lambda>j. fst (iteration (last_close_fails j))) [0..<99] =
      map (miss last_close_fails) [0..<99]"
    by (simp add: iteration_Continue_miss)
  with main_raise_at [of 99 last_close_fails, OF _ c it] show ?thesis by simp
qed

lemma binds_last_close_fails:
  "filter is_Bind (trace last_close_fails) = replicate 100 (Bind 20005 (Some OSError))"
proof -
  have p: "port_of last_close_fails j = 20005" for j
    by (simp add: port_of_def last_close_fails_def randint_def LOW_def HIGH_def)
  have "replicate 99 (Bind 20005 (Some OSError)) @ [Bind 20005 (Some OSError)] =
      replicate (Suc 99) (Bind 20005 (Some OSError))"
    by (simp only: replicate_append_same replicate_Suc)
  with stdout_misses_then [OF main_last_close_fails] p show ?thesis
    by (simp add: map_replicate_const)
qed

lemma main_no_option:
  "main no_option =
     ([Randint 20005, Socket None, Setsockopt None, Bind 20005 (Some OSError), Close None,
       Randint 20005, Socket None, Setsockopt (Some MemoryError), Close None],
      Some (Failure MemoryError))"
proof -
  have it: "iteration (no_option 0) =
      ([Randint 20005, Socket None, Setsockopt None, Bind 20005 (Some OSError), Close None], Continue)"
    "iteration (no_option 1) =
      ([Randint 20005, Socket None, Setsockopt (Some MemoryError), Close None],
       Raise (Failure MemoryError))"
    by (simp_all add: iteration_def with_body_def no_option_def randint_def LOW_def HIGH_def)
  have "(1::nat) < 100" by simp
  moreover from it(1) have "\<forall>j<1. snd (iteration (no_option j)) = Continue" by simp
  ultimately show ?thesis
    using main_raise_at [of 1 no_option, OF _ _ it(2)] it(1) by simp
qed

lemma main_no_option_os:
  "main no_option_os =
     ([Randint 20005, Socket None, Setsockopt None, Bind 20005 (Some OSError), Close None,
       Randint 20005, Socket None, Setsockopt (Some OSError), Close None],
      Some (Failure OSError))"
proof -
  have it: "iteration (no_option_os 0) =
      ([Randint 20005, Socket None, Setsockopt None, Bind 20005 (Some OSError), Close None], Continue)"
    "iteration (no_option_os 1) =
      ([Randint 20005, Socket None, Setsockopt (Some OSError), Close None],
       Raise (Failure OSError))"
    by (simp_all add: iteration_def with_body_def no_option_os_def randint_def LOW_def HIGH_def)
  have "(1::nat) < 100" by simp
  moreover from it(1) have "\<forall>j<1. snd (iteration (no_option_os j)) = Continue" by simp
  ultimately show ?thesis
    using main_raise_at [of 1 no_option_os, OF _ _ it(2)] it(1) by simp
qed


subsection \<open>The range of the ports\<close>

lemma iteration_ports:
  "ev \<in> set (fst (iteration a)) \<Longrightarrow>
   (case ev of
      Randint p \<Rightarrow> 20000 \<le> p \<and> p \<le> 60000
    | Bind p r \<Rightarrow> 20000 \<le> p \<and> p \<le> 60000
    | Print v \<Rightarrow> 20000 \<le> v \<and> v \<le> 60000
    | _ \<Rightarrow> True)"
  using randint_range [of "entropy a"]
  by (auto simp: iteration_def with_body_def Let_def split: option.splits if_splits)

lemma for_loop_ports:
  "ev \<in> set (fst (for_loop env is)) \<Longrightarrow>
   (case ev of
      Randint p \<Rightarrow> 20000 \<le> p \<and> p \<le> 60000
    | Bind p r \<Rightarrow> 20000 \<le> p \<and> p \<le> 60000
    | Print v \<Rightarrow> 20000 \<le> v \<and> v \<le> 60000
    | _ \<Rightarrow> True)"
proof (induction "is")
  case Nil
  then show ?case by simp
next
  case (Cons i "is")
  obtain evs sig where it: "iteration (env i) = (evs, sig)" by (cases "iteration (env i)")
  obtain evs' r where rest: "for_loop env is = (evs', r)" by (cases "for_loop env is")
  from Cons.prems it rest have "ev \<in> set evs \<or> ev \<in> set evs'"
    by (cases sig) auto
  then show ?case
  proof
    assume "ev \<in> set evs"
    with it iteration_ports [of ev "env i"] show ?thesis by simp
  next
    assume "ev \<in> set evs'"
    with rest Cons.IH show ?thesis by simp
  qed
qed

lemma main_ports:
  "ev \<in> set (trace env) \<Longrightarrow>
   (case ev of
      Randint p \<Rightarrow> 20000 \<le> p \<and> p \<le> 60000
    | Bind p r \<Rightarrow> 20000 \<le> p \<and> p \<le> 60000
    | Print v \<Rightarrow> v = 0 \<or> 20000 \<le> v \<and> v \<le> 60000
    | _ \<Rightarrow> True)"
proof -
  assume a: "ev \<in> set (trace env)"
  obtain evs r where l: "for_loop env [0..<100] = (evs, r)" by (cases "for_loop env [0..<100]")
  with a have "ev \<in> set evs \<or> ev = Print 0"
    by (cases r) (auto simp: trace_def main_def)
  then show ?thesis
  proof
    assume "ev \<in> set evs"
    with l for_loop_ports [of ev env "[0..<100]"] show ?thesis
      by (cases ev) simp_all
  next
    assume "ev = Print 0"
    then show ?thesis by simp
  qed
qed


text \<open>
  Claim C2. In every run, whatever the environment answers, every value printed lies in
  \<open>[20000, 60000]\<close> or is \<open>0\<close>, and every port drawn (and so every port that
  \<open>bind\<close> is called with) lies in \<open>[20000, 60000]\<close>. Both ends of the interval are
  drawn for some randomness.
\<close>

theorem ports_in_range:
  "(\<forall>v. Print v \<in> set (trace env) \<longrightarrow> 20000 \<le> v \<and> v \<le> 60000 \<or> v = 0) \<and>
   (\<forall>p. Randint p \<in> set (trace env) \<longrightarrow> 20000 \<le> p \<and> p \<le> 60000) \<and>
   (\<forall>p r. Bind p r \<in> set (trace env) \<longrightarrow> 20000 \<le> p \<and> p \<le> 60000) \<and>
   randint LOW HIGH 0 = 20000 \<and> randint LOW HIGH 40000 = 60000"
proof -
  have "20000 \<le> v \<and> v \<le> 60000 \<or> v = 0" if "Print v \<in> set (trace env)" for v
    using main_ports [OF that] by auto
  moreover have "20000 \<le> p \<and> p \<le> 60000" if "Randint p \<in> set (trace env)" for p
    using main_ports [OF that] by simp
  moreover have "20000 \<le> p \<and> p \<le> 60000" if "Bind p r \<in> set (trace env)" for p r
    using main_ports [OF that] by simp
  moreover have "randint LOW HIGH 0 = 20000 \<and> randint LOW HIGH 40000 = 60000"
    by (simp add: randint_def LOW_def HIGH_def)
  ultimately show ?thesis by blast
qed

theorem ports_in_range_witness:
  "Print 20007 \<in> set (trace third_free) \<and> Randint 20005 \<in> set (trace third_free) \<and>
   Bind 20006 (Some OSError) \<in> set (trace third_free) \<and>
   (20000 \<le> (20007::int) \<and> (20007::int) \<le> 60000 \<or> (20007::int) = 0) \<and>
   randint LOW HIGH 0 = 20000 \<and> randint LOW HIGH 40000 = 60000"
  using ports_in_range [of third_free] by (simp add: trace_def main_third_free)


subsection \<open>Termination within a hundred attempts\<close>

lemma iteration_counts:
  "length (filter is_Randint (fst (iteration a))) = 1 \<and>
   length (filter is_Bind (fst (iteration a))) \<le> 1 \<and>
   length (fst (iteration a)) \<le> 6 \<and>
   (snd (iteration a) = Continue \<longrightarrow> length (fst (iteration a)) = 5)"
  by (auto simp: iteration_def with_body_def Let_def split: option.splits if_splits)

lemma for_loop_counts:
  "length (filter is_Randint (fst (for_loop env is))) \<le> length is \<and>
   length (filter is_Bind (fst (for_loop env is))) \<le> length is \<and>
   length (fst (for_loop env is)) + (if snd (for_loop env is) = None then 1 else 0)
     \<le> 5 * length is + 1"
proof (induction "is")
  case Nil
  then show ?case by simp
next
  case (Cons i "is")
  obtain evs sig where it: "iteration (env i) = (evs, sig)" by (cases "iteration (env i)")
  obtain evs' r where rest: "for_loop env is = (evs', r)" by (cases "for_loop env is")
  from iteration_counts [of "env i"] it
  have c: "length (filter is_Randint evs) = 1" "length (filter is_Bind evs) \<le> 1"
    "length evs \<le> 6" "sig = Continue \<longrightarrow> length evs = 5"
    by simp_all
  show ?case
  proof (cases sig)
    case Continue
    with it rest c Cons.IH show ?thesis by (simp split: if_splits)
  next
    case (Raise e)
    with it c show ?thesis by simp
  qed
qed


text \<open>
  Claim C4. The model of the script is a total function: for every environment, that is
  for every sequence of results of \<open>bind\<close> and of the other calls, the run ends, after at
  most 100 calls of \<open>bind\<close>, at most 100 draws and at most 501 calls in all.
\<close>

theorem bounded_attempts:
  "\<exists>evs r. main env = (evs, r) \<and>
     length (filter is_Bind evs) \<le> 100 \<and> length (filter is_Randint evs) \<le> 100 \<and>
     length evs \<le> 501"
proof -
  obtain evs r where l: "for_loop env [0..<100] = (evs, r)" by (cases "for_loop env [0..<100]")
  with for_loop_counts [of env "[0..<100]"]
  have "length (filter is_Randint evs) \<le> 100" "length (filter is_Bind evs) \<le> 100"
    "length evs + (if r = None then 1 else 0) \<le> 501"
    by simp_all
  with l show ?thesis
    by (cases r) (simp_all add: main_def)
qed

theorem bounded_attempts_witness:
  "length (filter is_Bind (trace third_free)) \<le> 100 \<and>
   length (filter is_Randint (trace third_free)) \<le> 100 \<and> length (trace third_free) \<le> 501"
  using bounded_attempts [of third_free] by (auto simp: trace_def)


subsection \<open>The lifetime of the probe sockets\<close>

lemma scoped_append: "scoped st evs \<Longrightarrow> scoped [] evs' \<Longrightarrow> scoped st (evs @ evs')"
  by (induction evs arbitrary: st) simp_all

lemma scoped_iteration: "scoped [] (fst (iteration a))"
  by (simp add: iteration_def with_body_def Let_def split: option.splits)

lemma scoped_for_loop: "scoped [] (fst (for_loop env is))"
proof (induction "is")
  case Nil
  then show ?case by simp
next
  case (Cons i "is")
  obtain evs sig where it: "iteration (env i) = (evs, sig)" by (cases "iteration (env i)")
  obtain evs' r where rest: "for_loop env is = (evs', r)" by (cases "for_loop env is")
  from scoped_iteration [of "env i"] it have "scoped [] evs" by simp
  moreover from Cons.IH rest have "scoped [] evs'" by simp
  ultimately show ?case using it rest
    by (cases sig) (simp_all add: scoped_append)
qed

lemma scoped_trace: "scoped [] (trace env)"
proof -
  obtain evs r where l: "for_loop env [0..<100] = (evs, r)" by (cases "for_loop env [0..<100]")
  with scoped_for_loop [of env "[0..<100]"] have "scoped [] evs" by simp
  moreover have "scoped [] [Print 0]" by simp
  ultimately show ?thesis using l
    by (cases r) (simp_all add: trace_def main_def scoped_append)
qed

lemma scoped_prefix:
  "scoped st (pre @ post) \<Longrightarrow>
   length (foldl step st pre) \<le> 1 \<and>
   (post = [] \<longrightarrow> foldl step st pre = []) \<and>
   (\<forall>p rest. post = Randint p # rest \<longrightarrow> foldl step st pre = [])"
proof (induction pre arbitrary: st)
  case Nil
  then show ?case by (cases post) auto
next
  case (Cons ev pre)
  from Cons.prems have "scoped (step st ev) (pre @ post)" by simp
  from Cons.IH [OF this] show ?case by simp
qed

lemma sockets_iteration: "sockets (fst (iteration a)) = []"
  using scoped_prefix [of "[]" "fst (iteration a)" "[]"] scoped_iteration [of a]
  by (simp add: sockets_def)


text \<open>
  Claim C5. At every point of every run (after any prefix \<open>pre\<close> of its calls) at most
  one probe socket is open; none is open when the process ends (nothing follows \<open>pre\<close>)
  and none when the next attempt begins (a draw follows \<open>pre\<close>). Every attempt, however
  it is left (by \<open>continue\<close> after a failed \<open>bind\<close>, by \<open>SystemExit\<close> after a
  successful one, or by another exception), has closed its socket when it ends.
\<close>

theorem one_socket_at_a_time:
  assumes "trace env = pre @ post"
  shows "length (sockets pre) \<le> 1 \<and>
         (post = [] \<longrightarrow> sockets pre = []) \<and>
         (\<forall>p rest. post = Randint p # rest \<longrightarrow> sockets pre = []) \<and>
         sockets (fst (iteration a)) = []"
  using scoped_prefix [of "[]" pre post] scoped_trace [of env] assms
  by (simp add: sockets_def sockets_iteration [unfolded sockets_def])

theorem one_socket_at_a_time_witness:
  "length (sockets [Randint 20000, Socket None, Setsockopt None, Bind 20000 None]) \<le> 1 \<and>
   sockets (trace all_free) = [] \<and>
   sockets [Randint 20005, Socket None, Setsockopt None, Bind 20005 (Some OSError), Close None] = []"
proof -
  have 1: "trace all_free = [Randint 20000, Socket None, Setsockopt None, Bind 20000 None] @
     [Print 20000, Close None]"
    by (simp add: trace_def main_all_free)
  have 2: "trace all_free = trace all_free @ []" by simp
  have 3: "trace third_free =
     [Randint 20005, Socket None, Setsockopt None, Bind 20005 (Some OSError), Close None] @
     [Randint 20006, Socket None, Setsockopt None, Bind 20006 (Some OSError), Close None,
       Randint 20007, Socket None, Setsockopt None, Bind 20007 None, Print 20007, Close None]"
    by (simp add: trace_def main_third_free)
  from one_socket_at_a_time [OF 1] one_socket_at_a_time [OF 2] one_socket_at_a_time [OF 3]
  show ?thesis by blast
qed


subsection \<open>The order of \<open>print\<close> and \<open>close\<close>\<close>

lemma foldl_step_iteration: "foldl step [] (fst (iteration a)) = []"
  using sockets_iteration [of a] by (simp add: sockets_def)

lemma for_loop_bound:
  "Bind v None \<in> set (fst (for_loop env is)) \<Longrightarrow>
   snd (for_loop env is) \<noteq> None \<and>
   (\<exists>pre r. fst (for_loop env is) = pre @ [Bind v None, Print v, Close r] \<and>
      sockets pre = [None])"
proof (induction "is")
  case Nil
  then show ?case by simp
next
  case (Cons i "is")
  obtain evs sig where it: "iteration (env i) = (evs, sig)" by (cases "iteration (env i)")
  obtain evs' r where rest: "for_loop env is = (evs', r)" by (cases "for_loop env is")
  show ?case
  proof (cases "Bind v None \<in> set evs")
    case True
    with iteration_bound [of v "env i"] it obtain e where e: "sig = Raise e"
      and evs: "evs = [Randint v, Socket None, Setsockopt None] @
         [Bind v None, Print v, Close (close_result (env i))]"
      by auto
    have "sockets [Randint v, Socket None, Setsockopt None] = [None]"
      by (simp add: sockets_def)
    with e evs it show ?thesis by (simp del: append.simps)
  next
    case False
    with Cons.prems it rest have sig: "sig = Continue" and "Bind v None \<in> set evs'"
      by (cases sig; simp)+
    with Cons.IH rest obtain pre r' where pre: "r \<noteq> None"
      "evs' = pre @ [Bind v None, Print v, Close r']" "sockets pre = [None]"
      by auto
    from foldl_step_iteration [of "env i"] it pre(3) have "sockets (evs @ pre) = [None]"
      by (simp add: sockets_def)
    with pre(1,2) have "r \<noteq> None \<and> evs @ evs' = (evs @ pre) @ [Bind v None, Print v, Close r'] \<and>
       sockets (evs @ pre) = [None]"
      by simp
    with it rest sig show ?thesis by (simp del: append_assoc)
  qed
qed


text \<open>
  Claim C1, as the code has it. When a \<open>bind\<close> to port \<open>v\<close> returns, the run ends with
  that \<open>bind\<close>, then \<open>print(v)\<close>, then the \<open>close\<close> of the socket: line 14 runs inside
  the \<open>with\<close> statement, so the port is printed while the probe socket is still open and
  bound to it, and the socket is closed right afterwards, when \<open>SystemExit\<close> leaves the
  \<open>with\<close> statement. When the process ends no socket is open.
\<close>

theorem closed_after_print:
  assumes "Bind v None \<in> set (trace env)"
  shows "\<exists>pre r. trace env = pre @ [Bind v None, Print v, Close r] \<and>
           sockets (pre @ [Bind v None]) = [Some v] \<and>
           sockets (pre @ [Bind v None, Print v]) = [Some v] \<and>
           sockets (pre @ [Bind v None, Print v, Close r]) = []"
proof -
  obtain evs r where l: "for_loop env [0..<100] = (evs, r)" by (cases "for_loop env [0..<100]")
  have "Bind v None \<in> set evs"
  proof (cases r)
    case None
    with assms l show ?thesis by (simp add: trace_def main_def)
  next
    case (Some e)
    with assms l show ?thesis by (simp add: trace_def main_def)
  qed
  with for_loop_bound [of v env "[0..<100]"] l obtain pre r' where
    pre: "r \<noteq> None" "evs = pre @ [Bind v None, Print v, Close r']" "sockets pre = [None]"
    by auto
  from pre(1) l have "trace env = evs" by (auto simp: trace_def main_def)
  moreover from pre(3) have "sockets (pre @ [Bind v None]) = [Some v]"
    "sockets (pre @ [Bind v None, Print v]) = [Some v]"
    "sockets (pre @ [Bind v None, Print v, Close r']) = []"
    by (simp_all add: sockets_def)
  ultimately show ?thesis using pre(2) by blast
qed

theorem closed_after_print_witness:
  "Bind 20007 None \<in> set (trace third_free) \<and>
   sockets
     ([Randint 20005, Socket None, Setsockopt None, Bind 20005 (Some OSError), Close None,
       Randint 20006, Socket None, Setsockopt None, Bind 20006 (Some OSError), Close None,
       Randint 20007, Socket None, Setsockopt None] @ [Bind 20007 None, Print 20007]) =
     [Some 20007] \<and>
   sockets (trace third_free) = []"
proof -
  let ?P = "[Randint 20005, Socket None, Setsockopt None, Bind 20005 (Some OSError), Close None,
       Randint 20006, Socket None, Setsockopt None, Bind 20006 (Some OSError), Close None,
       Randint 20007, Socket None, Setsockopt None]"
  have b: "Bind 20007 None \<in> set (trace third_free)"
    by (simp add: trace_def main_third_free)
  from closed_after_print [OF b] obtain pre r where
    pre: "trace third_free = pre @ [Bind 20007 None, Print 20007, Close r]"
      "sockets (pre @ [Bind 20007 None, Print 20007]) = [Some 20007]"
      "sockets (pre @ [Bind 20007 None, Print 20007, Close r]) = []"
    by blast
  have t: "trace third_free = ?P @ [Bind 20007 None, Print 20007, Close None]"
    by (simp add: trace_def main_third_free)
  have len: "length [Bind 20007 None, Print 20007, Close r] =
     length [Bind 20007 None, Print 20007, Close None]"
    by simp
  from pre(1) t have "pre @ [Bind 20007 None, Print 20007, Close r] =
     ?P @ [Bind 20007 None, Print 20007, Close None]"
    by (rule trans [OF sym])
  with append_eq_append_conv [OF disjI2 [OF len], of pre ?P] have "pre = ?P" by blast
  with pre b show ?thesis by simp
qed


text \<open>
  Claim C1, as it is stated, asks that the socket bound to \<open>v\<close> be closed already when
  \<open>v\<close> is printed. It fails where every port is free: the first port drawn, 20000, is
  printed after the four calls below, at which point the process holds a socket bound to
  20000; the \<open>close\<close> comes after the \<open>print\<close>.
\<close>

theorem printed_while_bound:
  "trace all_free =
     [Randint 20000, Socket None, Setsockopt None, Bind 20000 None] @ Print 20000 # [Close None] \<and>
   (20000::int) \<noteq> 0 \<and>
   sockets [Randint 20000, Socket None, Setsockopt None, Bind 20000 None] = [Some 20000]"
  by (simp add: trace_def main_all_free sockets_def)


subsection \<open>Exhaustion\<close>

text \<open>
  Claim C3, as the code has it. If \<open>bind\<close> raises \<open>OSError\<close> in every one of the
  hundred attempts and the \<open>close\<close> of every probe socket returns (the sockets being
  created and configured without an exception, as a hundred calls of \<open>bind\<close> need), the
  run draws exactly 100 ports and calls \<open>bind\<close> exactly 100 times, each attempt being a
  miss; then it prints \<open>0\<close>, which is all that it prints, and the script reaches its end:
  no exception ends the process and the exit status is 0.
\<close>

theorem exhaustion:
  assumes "\<forall>i<100. socket_result (env i) = None \<and> setsockopt_result (env i) = None \<and>
             bind_result (env i) = Some OSError \<and> close_result (env i) = None"
  shows "length (filter is_Randint (trace env)) = 100 \<and>
         length (filter is_Bind (trace env)) = 100 \<and>
         trace env = concat (map (miss env) [0..<100]) @ [Print 0] \<and>
         filter is_Print (trace env) = [Print 0] \<and>
         stdout env = ''0'' @ [CHR 0x0A] \<and>
         snd (main env) = None \<and> exit_status env = 0"
proof -
  from assms have "\<forall>i \<in> set [0..<100]. nominal (env i) \<and> bind_result (env i) \<noteq> None"
    by (simp add: nominal_def)
  from for_loop_misses [OF this]
  have m: "main env = (concat (map (miss env) [0..<100]) @ [Print 0], None)"
    by (simp add: main_def)
  then show ?thesis
    by (simp add: trace_def stdout_def exit_status_def prints_misses written_misses
        randints_misses binds_misses str_0)
qed

theorem exhaustion_witness:
  "length (filter is_Randint (trace all_taken)) = 100 \<and>
   length (filter is_Bind (trace all_taken)) = 100 \<and>
   filter is_Print (trace all_taken) = [Print 0] \<and>
   stdout all_taken = ''0'' @ [CHR 0x0A] \<and>
   snd (main all_taken) = None \<and> exit_status all_taken = 0"
proof -
  have "\<forall>i<100. socket_result (all_taken i) = None \<and> setsockopt_result (all_taken i) = None \<and>
             bind_result (all_taken i) = Some OSError \<and> close_result (all_taken i) = None"
    by (simp add: all_taken_def)
  from exhaustion [OF this] show ?thesis by blast
qed


text \<open>
  Claim C3, as it is stated, has no condition on \<open>close\<close>. It fails where every
  \<open>bind\<close> raises \<open>OSError\<close> and the \<open>close\<close> of the hundredth socket raises: the run
  calls \<open>bind\<close> a hundred times, every call fails, and the exception of \<open>close\<close>, raised
  outside the \<open>try\<close> of lines 10 to 13, ends the process with status 1 before line 16
  prints \<open>0\<close>.
\<close>

theorem exhaustion_ended_by_close:
  "bind_result (last_close_fails 0) = Some OSError \<and>
   bind_result (last_close_fails 99) = Some OSError \<and>
   filter is_Bind (trace last_close_fails) = replicate 100 (Bind 20005 (Some OSError)) \<and>
   Print 0 \<notin> set (trace last_close_fails) \<and>
   snd (main last_close_fails) = Some (Failure OSError) \<and> exit_status last_close_fails = 1"
proof -
  from stdout_misses_then [OF main_last_close_fails]
  have "filter is_Print (trace last_close_fails) = []" by simp
  then have "Print 0 \<notin> set (filter is_Print (trace last_close_fails))" by simp
  then have "Print 0 \<notin> set (trace last_close_fails)" by simp
  then show ?thesis
    by (simp add: binds_last_close_fails exit_status_def main_last_close_fails
        last_close_fails_def)
qed


subsection \<open>A failed \<open>bind\<close>\<close>

text \<open>
  Claim C6, as the code has it. When \<open>bind\<close> raises \<open>OSError\<close> in attempt \<open>i\<close> (the
  socket having been created and configured), the iteration makes no further call but the
  \<open>close\<close> of its socket, and prints nothing. If that \<open>close\<close> returns, the failure is
  handled inside the iteration, which ends with \<open>continue\<close>: the loop goes on with the
  next index, and its result is the result of the remaining iterations, so that the failed
  \<open>bind\<close> is not propagated.
\<close>

theorem bind_failure_handled:
  assumes "socket_result (env i) = None" and "setsockopt_result (env i) = None"
    and "bind_result (env i) = Some OSError"
  shows "fst (iteration (env i)) =
           [Randint (port_of env i), Socket None, Setsockopt None,
            Bind (port_of env i) (Some OSError), Close (close_result (env i))] \<and>
         (close_result (env i) = None \<longrightarrow>
            snd (iteration (env i)) = Continue \<and>
            for_loop env (i # is) =
              ([Randint (port_of env i), Socket None, Setsockopt None,
                Bind (port_of env i) (Some OSError), Close None] @ fst (for_loop env is),
               snd (for_loop env is)))"
proof -
  from assms have ev: "fst (iteration (env i)) =
           [Randint (port_of env i), Socket None, Setsockopt None,
            Bind (port_of env i) (Some OSError), Close (close_result (env i))]"
    by (simp add: iteration_def with_body_def port_of_def Let_def split: option.splits)
  have "snd (iteration (env i)) = Continue \<and>
            for_loop env (i # is) =
              ([Randint (port_of env i), Socket None, Setsockopt None,
                Bind (port_of env i) (Some OSError), Close None] @ fst (for_loop env is),
               snd (for_loop env is))"
    if c: "close_result (env i) = None"
  proof -
    from assms c have "snd (iteration (env i)) = Continue" by (simp add: iteration_Continue)
    with ev c have "iteration (env i) =
           ([Randint (port_of env i), Socket None, Setsockopt None,
             Bind (port_of env i) (Some OSError), Close None], Continue)"
      by (cases "iteration (env i)") simp
    then show ?thesis by (simp split: prod.splits)
  qed
  with ev show ?thesis by blast
qed

theorem bind_failure_handled_witness:
  "fst (iteration (third_free 0)) =
     [Randint 20005, Socket None, Setsockopt None, Bind 20005 (Some OSError), Close None] \<and>
   snd (iteration (third_free 0)) = Continue \<and>
   for_loop third_free [0] =
     ([Randint 20005, Socket None, Setsockopt None, Bind 20005 (Some OSError), Close None], None)"
proof -
  have h: "socket_result (third_free 0) = None" "setsockopt_result (third_free 0) = None"
    "bind_result (third_free 0) = Some OSError"
    by (simp_all add: third_free_def)
  have c: "close_result (third_free 0) = None" by (simp add: third_free_def)
  have p: "port_of third_free 0 = 20005"
    by (simp add: port_of_def third_free_def randint_def LOW_def HIGH_def)
  from bind_failure_handled [of third_free 0 "[]", OF h] c p show ?thesis by simp
qed


text \<open>
  Claim C6, as it is stated, lets the loop continue whenever a \<open>bind\<close> fails. It fails
  where the \<open>close\<close> that follows the failed \<open>bind\<close> raises: the iteration ends with
  that exception, the loop over the indices 0 and 1 stops after the first one, and the
  process ends with status 1.
\<close>

theorem close_after_failed_bind_raises:
  "bind_result (taken_close_fails 0) = Some OSError \<and>
   iteration (taken_close_fails 0) =
     ([Randint 20005, Socket None, Setsockopt None, Bind 20005 (Some OSError),
       Close (Some OSError)],
      Raise (Failure OSError)) \<and>
   for_loop taken_close_fails [0, 1] =
     ([Randint 20005, Socket None, Setsockopt None, Bind 20005 (Some OSError),
       Close (Some OSError)],
      Some (Failure OSError)) \<and>
   exit_status taken_close_fails = 1"
proof -
  have it: "iteration (taken_close_fails 0) =
     ([Randint 20005, Socket None, Setsockopt None, Bind 20005 (Some OSError),
       Close (Some OSError)],
      Raise (Failure OSError))"
    by (simp add: iteration_def with_body_def taken_close_fails_def randint_def LOW_def HIGH_def)
  from main_raise_at [of 0 taken_close_fails, OF _ _ it]
  have "snd (main taken_close_fails) = Some (Failure OSError)" by simp
  with it show ?thesis by (simp add: exit_status_def taken_close_fails_def)
qed


subsection \<open>The exit status\<close>

text \<open>
  Claim C7, as the code has it. A run completes the algorithm when it finds a port (some
  \<open>bind\<close> returns) or exhausts its attempts (a hundred calls of \<open>bind\<close>, every one
  raising \<open>OSError\<close>). Every such run in which no \<open>close\<close> raises ends with exit status
  0: by the \<open>SystemExit(0)\<close> of line 15 when a port is found, and by reaching the end of
  the script when no port is found.
\<close>

theorem exit_status_zero:
  assumes "\<forall>e. Close (Some e) \<notin> set (trace env)"
    and "(\<exists>v. Bind v None \<in> set (trace env)) \<or>
         length (filter is_Bind (trace env)) = 100 \<and>
         (\<forall>p r. Bind p r \<in> set (trace env) \<longrightarrow> r = Some OSError)"
  shows "exit_status env = 0 \<and>
         ((\<exists>v. Bind v None \<in> set (trace env)) \<longrightarrow> snd (main env) = Some (SystemExit 0)) \<and>
         ((\<forall>v. Bind v None \<notin> set (trace env)) \<longrightarrow> snd (main env) = None)"
proof -
  have found: "snd (main env) = Some (SystemExit 0)" if "Bind v None \<in> set (trace env)" for v
  proof -
    from found_run [OF that] obtain k r where m: "main env =
           (concat (map (miss env) [0..<k]) @
              [Randint v, Socket None, Setsockopt None, Bind v None, Print v, Close r],
            Some (case r of None \<Rightarrow> SystemExit 0 | Some e \<Rightarrow> Failure e))"
      by blast
    then have "Close r \<in> set (trace env)" by (simp add: trace_def)
    with assms(1) have "r = None" by (cases r) auto
    with m show ?thesis by simp
  qed
  have exhausted: "snd (main env) = None" if "\<forall>v. Bind v None \<notin> set (trace env)"
  proof -
    from that assms(2) have "length (filter is_Bind (trace env)) = 100"
      "\<forall>p r. Bind p r \<in> set (trace env) \<longrightarrow> r = Some OSError"
      by blast+
    from exhausted_run [OF this assms(1)] show ?thesis by simp
  qed
  from found exhausted show ?thesis
    by (cases "\<exists>v. Bind v None \<in> set (trace env)") (auto simp: exit_status_def)
qed

theorem exit_status_zero_witness:
  "exit_status third_free = 0 \<and> snd (main third_free) = Some (SystemExit 0) \<and>
   exit_status all_taken = 0 \<and> snd (main all_taken) = None"
proof -
  have "\<forall>e. Close (Some e) \<notin> set (trace third_free)"
    "\<exists>v. Bind v None \<in> set (trace third_free)"
    by (simp_all add: trace_def main_third_free)
  with exit_status_zero [of third_free]
  have 1: "exit_status third_free = 0 \<and> snd (main third_free) = Some (SystemExit 0)"
    by blast
  from misses_run [OF main_all_taken] exit_status_zero [of all_taken]
  have "exit_status all_taken = 0 \<and> snd (main all_taken) = None"
    by blast
  with 1 show ?thesis by simp
qed


text \<open>
  Claim C7, as it is stated, has no condition on \<open>close\<close>. It fails where every port is
  free and \<open>close\<close> raises: the port 20000 is found and printed, then the exception of
  \<open>close\<close> takes the place of \<open>SystemExit(0)\<close> and the exit status is 1.
\<close>

theorem exit_status_after_close_raised:
  "trace close_fails =
     [Randint 20000, Socket None, Setsockopt None, Bind 20000 None, Print 20000,
      Close (Some OSError)] \<and>
   stdout close_fails = str 20000 @ [CHR 0x0A] \<and>
   snd (main close_fails) = Some (Failure OSError) \<and> exit_status close_fails = 1"
  by (simp add: trace_def stdout_def exit_status_def main_close_fails)


subsection \<open>Standard output\<close>

text \<open>
  Claim C8, as the code has it. Every run that finds a port, and every run that exhausts its
  attempts without a \<open>close\<close> raising, calls \<open>print\<close> exactly once, and its standard
  output is exactly one line: the decimal representation of the result and a newline. The
  result is the port whose \<open>bind\<close> returned, and \<open>0\<close> when no \<open>bind\<close> returned.
\<close>

theorem one_line_on_stdout:
  assumes "(\<exists>v. Bind v None \<in> set (trace env)) \<or>
           length (filter is_Bind (trace env)) = 100 \<and>
           (\<forall>p r. Bind p r \<in> set (trace env) \<longrightarrow> r = Some OSError) \<and>
           (\<forall>e. Close (Some e) \<notin> set (trace env))"
  shows "\<exists>v. filter is_Print (trace env) = [Print v] \<and> stdout env = str v @ [CHR 0x0A] \<and>
           (Bind v None \<in> set (trace env) \<or> v = 0 \<and> (\<forall>p. Bind p None \<notin> set (trace env)))"
proof (cases "\<exists>v. Bind v None \<in> set (trace env)")
  case True
  then obtain v where v: "Bind v None \<in> set (trace env)" by blast
  from found_run [OF v] obtain k r where m: "main env =
           (concat (map (miss env) [0..<k]) @
              [Randint v, Socket None, Setsockopt None, Bind v None, Print v, Close r],
            Some (case r of None \<Rightarrow> SystemExit 0 | Some e \<Rightarrow> Failure e))"
    by blast
  from stdout_misses_then [OF m]
  have "filter is_Print (trace env) = [Print v]" "stdout env = str v @ [CHR 0x0A]"
    by simp_all
  with v show ?thesis by blast
next
  case False
  with assms have "length (filter is_Bind (trace env)) = 100"
    "\<forall>p r. Bind p r \<in> set (trace env) \<longrightarrow> r = Some OSError"
    "\<forall>e. Close (Some e) \<notin> set (trace env)"
    by blast+
  from exhausted_run [OF this]
  have m: "main env = (concat (map (miss env) [0..<100]) @ [Print 0], None)" .
  from stdout_misses_then [OF m]
  have "filter is_Print (trace env) = [Print 0]" "stdout env = str 0 @ [CHR 0x0A]"
    by simp_all
  with False show ?thesis by blast
qed

theorem one_line_on_stdout_witness:
  "filter is_Print (trace third_free) = [Print 20007] \<and>
   stdout third_free = ''20007'' @ [CHR 0x0A] \<and>
   filter is_Print (trace close_fails) = [Print 20000] \<and>
   filter is_Print (trace all_taken) = [Print 0] \<and> stdout all_taken = ''0'' @ [CHR 0x0A]"
proof -
  have b: "Bind 20007 None \<in> set (trace third_free)"
    and only: "\<And>v. Bind v None \<in> set (trace third_free) \<Longrightarrow> v = 20007" "(20007::int) \<noteq> 0"
    by (auto simp: trace_def main_third_free)
  from b one_line_on_stdout [of third_free] obtain v where
    v: "filter is_Print (trace third_free) = [Print v]" "stdout third_free = str v @ [CHR 0x0A]"
      "Bind v None \<in> set (trace third_free) \<or>
       v = 0 \<and> (\<forall>p. Bind p None \<notin> set (trace third_free))"
    by blast
  from v(3) b only have "v = 20007" by blast
  with v(1,2) have 1: "filter is_Print (trace third_free) = [Print 20007]"
    "stdout third_free = ''20007'' @ [CHR 0x0A]"
    by (simp_all add: str_20007)
  have c: "Bind 20000 None \<in> set (trace close_fails)"
    and conly: "\<And>v. Bind v None \<in> set (trace close_fails) \<Longrightarrow> v = 20000"
    by (auto simp: trace_def main_close_fails)
  from c one_line_on_stdout [of close_fails] obtain u where
    u: "filter is_Print (trace close_fails) = [Print u]"
      "Bind u None \<in> set (trace close_fails) \<or>
       u = 0 \<and> (\<forall>p. Bind p None \<notin> set (trace close_fails))"
    by blast
  from u(2) c conly have "u = 20000" by blast
  with u(1) have 2: "filter is_Print (trace close_fails) = [Print 20000]" by simp
  from misses_run [OF main_all_taken] one_line_on_stdout [of all_taken] obtain w where
    w: "filter is_Print (trace all_taken) = [Print w]" "stdout all_taken = str w @ [CHR 0x0A]"
      "Bind w None \<in> set (trace all_taken) \<or>
       w = 0 \<and> (\<forall>p. Bind p None \<notin> set (trace all_taken))"
    by blast
  from misses_run [OF main_all_taken] w(3) have "w = 0" by auto
  with w(1,2) have "filter is_Print (trace all_taken) = [Print 0]"
    "stdout all_taken = ''0'' @ [CHR 0x0A]"
    by (simp_all add: str_0)
  with 1 2 show ?thesis by simp
qed


text \<open>
  Claim C8, as it is stated, has no condition on \<open>close\<close>. It fails where every
  \<open>bind\<close> raises \<open>OSError\<close> and the \<open>close\<close> of the hundredth socket raises: the
  hundred attempts are exhausted and nothing is written to standard output.
\<close>

theorem nothing_printed_after_last_close_raised:
  "filter is_Bind (trace last_close_fails) = replicate 100 (Bind 20005 (Some OSError)) \<and>
   filter is_Print (trace last_close_fails) = [] \<and> stdout last_close_fails = []"
  using stdout_misses_then [OF main_last_close_fails]
  by (simp add: binds_last_close_fails)


subsection \<open>Any other failure\<close>

lemma written_Continue:
  "snd (iteration a) = Continue \<Longrightarrow> concat (map written (fst (iteration a))) = []"
  by (auto simp: iteration_def with_body_def Let_def split: option.splits if_splits)

lemma written_Continues:
  "\<forall>j \<in> set js. snd (iteration (env j)) = Continue \<Longrightarrow>
   concat (map written (concat (map (\<lambda>j. fst (iteration (env j))) js))) = []"
  by (induction js) (simp_all add: written_Continue)


text \<open>
  Claim C9. An iteration ends with \<open>continue\<close> only when the socket was created,
  configured and closed without an exception and \<open>bind\<close> raised \<open>OSError\<close>: nothing but
  that failure is recovered. When attempt \<open>k\<close> is reached and \<open>socket.socket\<close> or
  \<open>setsockopt\<close> raises \<open>e\<close>, or \<open>bind\<close> raises an \<open>e\<close> that is not an \<open>OSError\<close>,
  the exception \<open>e\<close> ends the process uncaught: the exit status is 1 and nothing has
  been printed.
\<close>

theorem other_failures_propagate:
  "(snd (iteration a) = Continue \<longleftrightarrow>
      socket_result a = None \<and> setsockopt_result a = None \<and>
      bind_result a = Some OSError \<and> close_result a = None) \<and>
   (k < 100 \<and> (\<forall>j<k. snd (iteration (env j)) = Continue) \<and>
    (socket_result (env k) = Some e \<or>
     socket_result (env k) = None \<and> setsockopt_result (env k) = Some e \<and>
       close_result (env k) = None \<or>
     socket_result (env k) = None \<and> setsockopt_result (env k) = None \<and>
       bind_result (env k) = Some e \<and> e \<noteq> OSError \<and> close_result (env k) = None) \<longrightarrow>
    snd (main env) = Some (Failure e) \<and> exit_status env = 1 \<and> stdout env = [])"
proof -
  have "snd (main env) = Some (Failure e) \<and> exit_status env = 1 \<and> stdout env = []"
    if k: "k < 100" and c: "\<forall>j<k. snd (iteration (env j)) = Continue"
      and f: "socket_result (env k) = Some e \<or>
        socket_result (env k) = None \<and> setsockopt_result (env k) = Some e \<and>
          close_result (env k) = None \<or>
        socket_result (env k) = None \<and> setsockopt_result (env k) = None \<and>
          bind_result (env k) = Some e \<and> e \<noteq> OSError \<and> close_result (env k) = None"
  proof -
    from f have "snd (iteration (env k)) = Raise (Failure e) \<and>
        concat (map written (fst (iteration (env k)))) = []"
      by (auto simp: iteration_def with_body_def Let_def)
    then obtain evs where it: "iteration (env k) = (evs, Raise (Failure e))"
      and w: "concat (map written evs) = []"
      by (cases "iteration (env k)") simp
    from c have "\<forall>j \<in> set [0..<k]. snd (iteration (env j)) = Continue" by simp
    from written_Continues [OF this] main_raise_at [OF k c it] w
    show ?thesis by (simp add: exit_status_def stdout_def trace_def)
  qed
  with iteration_Continue [of a] show ?thesis by blast
qed

theorem other_failures_propagate_witness:
  "snd (iteration (no_socket 0)) = Continue \<and> snd (main no_socket) = Some (Failure OSError) \<and>
   exit_status no_socket = 1 \<and> stdout no_socket = []"
proof -
  have "(1::nat) < 100 \<and> (\<forall>j<1. snd (iteration (no_socket j)) = Continue) \<and>
    socket_result (no_socket 1) = Some OSError"
    by (simp add: iteration_def with_body_def no_socket_def Let_def)
  moreover have "socket_result (no_socket 0) = None \<and> setsockopt_result (no_socket 0) = None \<and>
      bind_result (no_socket 0) = Some OSError \<and> close_result (no_socket 0) = None"
    by (simp add: no_socket_def)
  ultimately show ?thesis
    using other_failures_propagate [of "no_socket 0" 1 no_socket OSError] by blast
qed


subsection \<open>Determinism\<close>

lemma verdict_misses:
  "length is < 100 \<Longrightarrow>
   verdict (map (\<lambda>j. Bind (port_of env j) (Some OSError)) is) cs = ([], 1)"
  by (cases "is = []") (simp_all add: verdict_def last_map)

lemma verdict_exhausted:
  "length is = 100 \<Longrightarrow>
   verdict (map (\<lambda>j. Bind (port_of env j) (Some OSError)) is) (map (\<lambda>j. Close None) is) =
     (str 0 @ [CHR 0x0A], 0)"
  by (cases "is = []") (simp_all add: verdict_def last_map)

lemma verdict_hit:
  "verdict (bs @ [Bind v None]) (cs @ [Close r]) =
     (str v @ [CHR 0x0A], if r = None then 0 else 1)"
  by (simp add: verdict_def)

lemma verdict_other: "e \<noteq> OSError \<Longrightarrow> verdict (bs @ [Bind p (Some e)]) cs = ([], 1)"
  by (simp add: verdict_def)

lemma verdict_closing:
  "verdict (bs @ [Bind p (Some OSError)]) (cs @ [Close (Some e)]) = ([], 1)"
  by (simp add: verdict_def)


text \<open>
  The standard output and the exit status of a run are a function of the calls of \<open>bind\<close>
  and of \<open>close\<close> that it makes.
\<close>

lemma verdict_main:
  "(stdout env, exit_status env) =
   verdict (filter is_Bind (trace env)) (filter is_Close (trace env))"
  using main_cases [of env]
proof
  assume m: "main env = (concat (map (miss env) [0..<100]) @ [Print 0], None)"
  from stdout_misses_then [OF m]
  have "stdout env = str 0 @ [CHR 0x0A]"
    "filter is_Bind (trace env) = map (\<lambda>j. Bind (port_of env j) (Some OSError)) [0..<100]"
    "filter is_Close (trace env) = map (\<lambda>j. Close None) [0..<100]"
    by simp_all
  moreover from m have "exit_status env = 0" by (simp add: exit_status_def)
  moreover have "length [0..<100] = 100" by simp
  ultimately show ?thesis by (simp only: verdict_exhausted)
next
  assume "\<exists>k<100. \<exists>evs x. iteration (env k) = (evs, Raise x) \<and>
      main env = (concat (map (miss env) [0..<k]) @ evs, Some x)"
  then obtain k evs x where k: "k < 100" and it: "iteration (env k) = (evs, Raise x)"
    and m: "main env = (concat (map (miss env) [0..<k]) @ evs, Some x)"
    by blast
  let ?bs = "map (\<lambda>j. Bind (port_of env j) (Some OSError)) [0..<k]"
  let ?cs = "map (\<lambda>j. Close None) [0..<k]"
  from stdout_misses_then [OF m] have out: "stdout env = concat (map written evs)"
    and binds: "filter is_Bind (trace env) = ?bs @ filter is_Bind evs"
    and closes: "filter is_Close (trace env) = ?cs @ filter is_Close evs"
    by simp_all
  from m have st: "exit_status env = (case x of SystemExit n \<Rightarrow> n | Failure e \<Rightarrow> 1)"
    by (simp add: exit_status_def)
  from k have v: "verdict ?bs cs = ([], 1)" for cs
    by (simp add: verdict_misses)
  from it show ?thesis
  proof (cases rule: raise_cases)
    case (hit v)
    with out binds closes st show ?thesis by (simp add: verdict_hit)
  next
    case (hit_raise v e)
    with out binds closes st show ?thesis by (simp add: verdict_hit)
  next
    case (none e)
    with out binds st v show ?thesis by simp
  next
    case (other p e e')
    with out binds st show ?thesis by (simp add: verdict_other)
  next
    case (closing p e e')
    with out binds closes st show ?thesis by (simp add: verdict_closing)
  qed
qed


text \<open>
  Claim C10, as the code has it. Two runs that see the same ports drawn, the same calls of
  \<open>bind\<close> with the same outcomes and the same outcomes of \<open>close\<close>, each in the same
  order, write the same standard output and end with the same exit status, whatever else
  differs in their environments.
\<close>

theorem deterministic:
  assumes "filter is_Randint (trace e1) = filter is_Randint (trace e2)"
    and "filter is_Bind (trace e1) = filter is_Bind (trace e2)"
    and "filter is_Close (trace e1) = filter is_Close (trace e2)"
  shows "stdout e1 = stdout e2 \<and> exit_status e1 = exit_status e2"
proof -
  have "(stdout e1, exit_status e1) =
      verdict (filter is_Bind (trace e1)) (filter is_Close (trace e1))"
    by (rule verdict_main)
  also from assms(2,3) have "\<dots> = verdict (filter is_Bind (trace e2)) (filter is_Close (trace e2))"
    by simp
  also have "\<dots> = (stdout e2, exit_status e2)"
    by (rule verdict_main [symmetric])
  finally show ?thesis by simp
qed

theorem deterministic_witness:
  "filter is_Randint (trace no_option) = [Randint 20005, Randint 20005] \<and>
   filter is_Randint (trace no_option_os) = [Randint 20005, Randint 20005] \<and>
   filter is_Bind (trace no_option) = [Bind 20005 (Some OSError)] \<and>
   filter is_Bind (trace no_option_os) = [Bind 20005 (Some OSError)] \<and>
   filter is_Close (trace no_option) = [Close None, Close None] \<and>
   filter is_Close (trace no_option_os) = [Close None, Close None] \<and>
   trace no_option \<noteq> trace no_option_os \<and>
   stdout no_option = stdout no_option_os \<and> exit_status no_option = exit_status no_option_os"
proof -
  have "filter is_Randint (trace no_option) = filter is_Randint (trace no_option_os)"
    "filter is_Bind (trace no_option) = filter is_Bind (trace no_option_os)"
    "filter is_Close (trace no_option) = filter is_Close (trace no_option_os)"
    by (simp_all add: trace_def main_no_option main_no_option_os)
  from deterministic [OF this] show ?thesis
    by (simp add: trace_def main_no_option main_no_option_os)
qed


text \<open>
  Claim C10, as it is stated, speaks of the draws and of the outcomes of \<open>bind\<close> only. It
  fails for two runs that draw the port 20000 and bind it, where \<open>close\<close> returns in the
  first and raises in the second: the draws, the calls of \<open>bind\<close> and the standard output
  are the same, and the exit status is 0 in the first run and 1 in the second.
\<close>

theorem exit_status_differs_by_close:
  "filter is_Randint (trace all_free) = filter is_Randint (trace close_fails) \<and>
   filter is_Bind (trace all_free) = filter is_Bind (trace close_fails) \<and>
   stdout all_free = stdout close_fails \<and>
   exit_status all_free = 0 \<and> exit_status close_fails = 1"
  by (simp add: trace_def stdout_def exit_status_def main_all_free main_close_fails)


end
